theory Spec2Isabelle
  imports Main "HOL-Library.Finite_Map"
begin

unbundle bit_operations_syntax

section \<open>Block table\<close>

text \<open>
  The module reads four entries of the block registry \<open>bravo.blocks.blocks\<close> and uses only
  their \<open>slot\<close> numbers. The registry lives in another module, so the four slots are a
  parameter of the codec.
\<close>

record blocks =
  redstone_torch :: int
  redstone_torch_off :: int
  redstone_wire :: int
  lever :: int

section \<open>Block / Boolean codec\<close>

definition truthify_block :: "blocks \<Rightarrow> bool \<Rightarrow> int \<Rightarrow> int \<Rightarrow> int \<times> int" where
  "truthify_block blocks truth block metadata =
     (if block = redstone_torch blocks \<or> block = redstone_torch_off blocks then
        (if truth then (redstone_torch blocks, metadata)
         else (redstone_torch_off blocks, metadata))
      else if block = redstone_wire blocks then
        (if truth then (block, if metadata \<noteq> 0 then metadata else 0xf)
         else (block, 0x0))
      else if block = lever blocks then
        (if truth then (block, metadata OR 0x8)
         else (block, metadata AND NOT 0x8))
      else (block, metadata))"

definition bbool :: "blocks \<Rightarrow> int \<Rightarrow> int \<Rightarrow> bool" where
  "bbool blocks block metadata =
     (if block = redstone_torch blocks then True
      else if block = redstone_torch_off blocks then False
      else if block = redstone_wire blocks then metadata \<noteq> 0
      else if block = lever blocks then metadata AND 0x8 \<noteq> 0
      else False)"

section \<open>Circuits\<close>

text \<open>
  Circuits are Python objects: the edge sets hold references and membership in them is by
  identity. The model keeps the objects in a store indexed by reference. The class of an
  object fixes its \<open>name\<close>, its \<open>traceables\<close>, its operator and its scans; \<open>orientation\<close> is the
  attribute set by \<open>OrientedCircuit\<close> and is read for torches and levers only. Coordinates
  are Python integers.
\<close>

type_synonym coord = "int \<times> int \<times> int"

type_synonym ref = nat

datatype cls = Wire | PlainBlock | Torch | Lever

datatype error = RedstoneError string | TypeError

record circuit =
  cls :: cls
  coords :: coord
  orientation :: string
  status :: bool
  inputs :: "ref set"
  outputs :: "ref set"

fun name :: "cls \<Rightarrow> string" where
  "name Wire = ''wire''"
| "name PlainBlock = ''plain''"
| "name Torch = ''torch''"
| "name Lever = ''lever''"

fun traceables :: "cls \<Rightarrow> string list" where
  "traceables Wire = [''plain'']"
| "traceables PlainBlock = [''torch'']"
| "traceables Torch = [''wire'']"
| "traceables Lever = [''plain'']"

text \<open>The scans of the base class \<open>Circuit\<close>, inherited by \<open>Wire\<close> and \<open>PlainBlock\<close>.\<close>

definition Circuit_iter_inputs :: "circuit \<Rightarrow> coord list" where
  "Circuit_iter_inputs self =
     (case coords self of (x, y, z) \<Rightarrow>
        map (\<lambda>(dx, dy, dz). (x + dx, y + dy, z + dz))
          [(- 1, 0, 0), (1, 0, 0), (0, 0, - 1), (0, 0, 1)])"

definition Circuit_iter_outputs :: "circuit \<Rightarrow> coord list" where
  "Circuit_iter_outputs self =
     (case coords self of (x, y, z) \<Rightarrow>
        map (\<lambda>(dx, dy, dz). (x + dx, y + dy, z + dz))
          [(- 1, 0, 0), (1, 0, 0), (0, 0, - 1), (0, 0, 1)])"

definition Torch_iter_inputs :: "circuit \<Rightarrow> coord list" where
  "Torch_iter_inputs self =
     (case coords self of (x, y, z) \<Rightarrow>
        if orientation self = ''+x'' then [(x - 1, y, z)]
        else if orientation self = ''-x'' then [(x + 1, y, z)]
        else if orientation self = ''+z'' then [(x, y, z - 1)]
        else if orientation self = ''-z'' then [(x, y, z + 1)]
        else if orientation self = ''+y'' then [(x, y - 1, z)]
        else [])"

definition Torch_iter_outputs :: "circuit \<Rightarrow> coord list" where
  "Torch_iter_outputs self =
     (case coords self of (x, y, z) \<Rightarrow>
        if orientation self \<noteq> ''+x'' then [(x - 1, y, z)]
        else if orientation self \<noteq> ''-x'' then [(x + 1, y, z)]
        else if orientation self \<noteq> ''+z'' then [(x, y, z - 1)]
        else if orientation self \<noteq> ''-z'' then [(x, y, z + 1)]
        else if orientation self \<noteq> ''+y'' then [(x, y - 1, z)]
        else [])"

definition Lever_iter_inputs :: "circuit \<Rightarrow> coord list" where
  "Lever_iter_inputs self = []"

definition Lever_iter_outputs :: "circuit \<Rightarrow> coord list" where
  "Lever_iter_outputs self =
     (case coords self of (x, y, z) \<Rightarrow>
        if orientation self = ''+x'' then [(x - 1, y, z)]
        else if orientation self = ''-x'' then [(x + 1, y, z)]
        else if orientation self = ''+z'' then [(x, y, z - 1)]
        else if orientation self = ''-z'' then [(x, y, z + 1)]
        else if orientation self = ''+y'' then [(x, y - 1, z)]
        else [])"

text \<open>Method dispatch on the class of the object.\<close>

definition iter_inputs :: "circuit \<Rightarrow> coord list" where
  "iter_inputs self =
     (case cls self of
        Wire \<Rightarrow> Circuit_iter_inputs self
      | PlainBlock \<Rightarrow> Circuit_iter_inputs self
      | Torch \<Rightarrow> Torch_iter_inputs self
      | Lever \<Rightarrow> Lever_iter_inputs self)"

definition iter_outputs :: "circuit \<Rightarrow> coord list" where
  "iter_outputs self =
     (case cls self of
        Wire \<Rightarrow> Circuit_iter_outputs self
      | PlainBlock \<Rightarrow> Circuit_iter_outputs self
      | Torch \<Rightarrow> Torch_iter_outputs self
      | Lever \<Rightarrow> Lever_iter_outputs self)"

section \<open>The store and the Asic\<close>

text \<open>
  The state is the object store together with the \<open>circuits\<close> dictionary of one Asic, a
  finite map from coordinates to references. A raised exception is returned as a value
  beside the state in which it was raised.
\<close>

record state =
  heap :: "ref \<Rightarrow> circuit"
  circuits :: "(coord, ref) fmap"

definition add_input :: "ref \<Rightarrow> ref \<Rightarrow> (ref \<Rightarrow> circuit) \<Rightarrow> (ref \<Rightarrow> circuit)" where
  \<comment> \<open>\<open>c.inputs.add(t)\<close>\<close>
  "add_input c t h = h(c := (h c)\<lparr>inputs := insert t (inputs (h c))\<rparr>)"

definition add_output :: "ref \<Rightarrow> ref \<Rightarrow> (ref \<Rightarrow> circuit) \<Rightarrow> (ref \<Rightarrow> circuit)" where
  \<comment> \<open>\<open>c.outputs.add(t)\<close>\<close>
  "add_output c t h = h(c := (h c)\<lparr>outputs := insert t (outputs (h c))\<rparr>)"

text \<open>The bodies of the two loops of \<open>connect\<close>, for one scanned coordinate.\<close>

definition connect_input ::
  "(coord, ref) fmap \<Rightarrow> ref \<Rightarrow> coord \<Rightarrow> (ref \<Rightarrow> circuit) \<Rightarrow> (ref \<Rightarrow> circuit)" where
  "connect_input cs self co h =
     (case fmlookup cs co of
        None \<Rightarrow> h
      | Some target \<Rightarrow>
          if name (cls (h self)) \<in> set (traceables (cls (h target)))
          then add_output target self (add_input self target h)
          else h)"

definition connect_output ::
  "(coord, ref) fmap \<Rightarrow> ref \<Rightarrow> coord \<Rightarrow> (ref \<Rightarrow> circuit) \<Rightarrow> (ref \<Rightarrow> circuit)" where
  "connect_output cs self co h =
     (case fmlookup cs co of
        None \<Rightarrow> h
      | Some target \<Rightarrow>
          if name (cls (h target)) \<in> set (traceables (cls (h self)))
          then add_output self target (add_input target self h)
          else h)"

definition connect :: "ref \<Rightarrow> state \<Rightarrow> error option \<times> state" where
  "connect self s =
     (let here = coords (heap s self) in
      if (case fmlookup (circuits s) here of None \<Rightarrow> False | Some r \<Rightarrow> r \<noteq> self)
      then (Some (RedstoneError ''Circuit trace already occupied!''), s)
      else
        let cs = fmupd here self (circuits s);
            h1 = fold (connect_input cs self) (iter_inputs (heap s self)) (heap s);
            h2 = fold (connect_output cs self) (iter_outputs (h1 self)) h1
        in (None, \<lparr>heap = h2, circuits = cs\<rparr>))"

text \<open>
  The two loops of \<open>disconnect\<close> run over a set; each iteration changes another object of
  the set, so the loop is one pointwise change of the store.
\<close>

definition discard_from_outputs :: "ref \<Rightarrow> (ref \<Rightarrow> circuit) \<Rightarrow> (ref \<Rightarrow> circuit)" where
  "discard_from_outputs self h =
     (\<lambda>c. if c \<in> inputs (h self) then (h c)\<lparr>outputs := outputs (h c) - {self}\<rparr> else h c)"

definition discard_from_inputs :: "ref \<Rightarrow> (ref \<Rightarrow> circuit) \<Rightarrow> (ref \<Rightarrow> circuit)" where
  "discard_from_inputs self h =
     (\<lambda>c. if c \<in> outputs (h self) then (h c)\<lparr>inputs := inputs (h c) - {self}\<rparr> else h c)"

definition disconnect :: "ref \<Rightarrow> state \<Rightarrow> error option \<times> state" where
  "disconnect self s =
     (let here = coords (heap s self) in
      case fmlookup (circuits s) here of
        None \<Rightarrow> (Some (RedstoneError ''Circuit can't detach from ASIC!''), s)
      | Some r \<Rightarrow>
          if r \<noteq> self
          then (Some (RedstoneError ''Circuit can't detach another circuit!''), s)
          else
            let h1 = discard_from_outputs self (heap s);
                h2 = discard_from_inputs self h1;
                h3 = h2(self := (h2 self)\<lparr>inputs := {}, outputs := {}\<rparr>)
            in (None, \<lparr>heap = h3, circuits = fmdrop here (circuits s)\<rparr>))"

section \<open>Gate update\<close>

text \<open>
  \<open>self.op(*[i.status for i in self.inputs])\<close>. \<open>Wire\<close> and \<open>PlainBlock\<close> apply \<open>any\<close>; \<open>Torch\<close>
  applies \<open>operator.not_\<close>, which takes exactly one argument and raises \<open>TypeError\<close> otherwise;
  \<open>Lever.op\<close> raises when it is given any input. The order in which the set is listed
  does not matter to any of them, so the operator is written on the set.
\<close>

definition op :: "(ref \<Rightarrow> circuit) \<Rightarrow> ref \<Rightarrow> error + bool" where
  "op h self =
     (case cls (h self) of
        Wire \<Rightarrow> Inr (\<exists>i \<in> inputs (h self). status (h i))
      | PlainBlock \<Rightarrow> Inr (\<exists>i \<in> inputs (h self). status (h i))
      | Torch \<Rightarrow>
          if is_singleton (inputs (h self))
          then Inr (\<not> status (h (the_elem (inputs (h self)))))
          else Inl TypeError
      | Lever \<Rightarrow>
          if inputs (h self) \<noteq> {} then Inl (RedstoneError ''Levers don't take inputs!'')
          else Inr (status (h self)))"

text \<open>
  \<open>update\<close> returns the circuits to recheck: the empty tuple, modelled as the empty
  collection, or the \<open>outputs\<close> set of the object.
\<close>

definition update :: "ref \<Rightarrow> (ref \<Rightarrow> circuit) \<Rightarrow> (error + ref set) \<times> (ref \<Rightarrow> circuit)" where
  "update self h =
     (if inputs (h self) = {} then (Inr {}, h)
      else
        case op h self of
          Inl e \<Rightarrow> (Inl e, h)
        | Inr new \<Rightarrow>
            if status (h self) \<noteq> new
            then (Inr (outputs (h self)), h(self := (h self)\<lparr>status := new\<rparr>))
            else (Inr {}, h))"

section \<open>Wire groups\<close>

text \<open>
  The deque of \<open>find_wires\<close> is a list whose head is the left end: \<open>appendleft\<close> is \<open>#\<close> and
  \<open>pop\<close> takes the last element. \<open>scan_neighbor\<close> is the body of the inner loop,
  \<open>find_wires_step\<close> one iteration of the \<open>while\<close> loop on the pair of the deque and the
  visited set.
\<close>

definition scan_neighbor ::
  "(coord, ref) fmap \<Rightarrow> (ref \<Rightarrow> circuit) \<Rightarrow> ref set \<Rightarrow> coord \<Rightarrow> ref list \<Rightarrow> ref list" where
  "scan_neighbor cs h wires neighbor d =
     (case fmlookup cs neighbor of
        None \<Rightarrow> d
      | Some circuit \<Rightarrow>
          if name (cls (h circuit)) = ''wire'' \<and> circuit \<notin> wires then circuit # d else d)"

definition find_wires_step ::
  "(coord, ref) fmap \<Rightarrow> (ref \<Rightarrow> circuit) \<Rightarrow> ref list \<times> ref set \<Rightarrow> ref list \<times> ref set" where
  "find_wires_step cs h = (\<lambda>(d, wires).
     let w = last d;
         d' = fold (scan_neighbor cs h wires) (iter_inputs (h w) @ iter_outputs (h w)) (butlast d)
     in (d', insert w wires))"

text \<open>
  The measure of the loop: the circuits stored in the Asic and the entries of the deque
  that are not yet visited, then the entries of the deque that are visited already.
\<close>

definition unvisited :: "(coord, ref) fmap \<Rightarrow> ref list \<times> ref set \<Rightarrow> ref set" where
  "unvisited cs = (\<lambda>(d, wires). (fmran' cs \<union> set d) - wires)"

definition stale :: "ref list \<times> ref set \<Rightarrow> nat" where
  "stale = (\<lambda>(d, wires). length (filter (\<lambda>r. r \<in> wires) d))"

lemma fold_scan_neighbor:
  "\<exists>new. fold (scan_neighbor cs h wires) ns d = new @ d
        \<and> set new \<subseteq> fmran' cs - wires"
proof (induction ns arbitrary: d)
  case Nil
  show ?case by simp
next
  case (Cons n ns)
  obtain new where new: "fold (scan_neighbor cs h wires) ns (scan_neighbor cs h wires n d)
      = new @ scan_neighbor cs h wires n d" "set new \<subseteq> fmran' cs - wires"
    using Cons.IH by blast
  show ?case
  proof (cases "scan_neighbor cs h wires n d = d")
    case True
    with new show ?thesis by auto
  next
    case False
    then obtain c where c: "fmlookup cs n = Some c" "c \<notin> wires"
        "scan_neighbor cs h wires n d = c # d"
      by (auto simp: scan_neighbor_def split: option.splits if_splits)
    then have "c \<in> fmran' cs" by (auto intro: fmran'I)
    with new c have "fold (scan_neighbor cs h wires) (n # ns) d = (new @ [c]) @ d
        \<and> set (new @ [c]) \<subseteq> fmran' cs - wires"
      by auto
    then show ?thesis by blast
  qed
qed

lemma finite_unvisited: "finite (unvisited cs s)"
  by (cases s) (simp add: unvisited_def fmran'_alt_def)

lemma find_wires_step_decreases:
  assumes "d \<noteq> []"
  shows "card (unvisited cs (find_wires_step cs h (d, wires))) < card (unvisited cs (d, wires))
       \<or> (card (unvisited cs (find_wires_step cs h (d, wires))) = card (unvisited cs (d, wires))
          \<and> stale (find_wires_step cs h (d, wires)) < stale (d, wires))"
proof -
  define w where "w = last d"
  obtain new where new:
    "fold (scan_neighbor cs h wires) (iter_inputs (h w) @ iter_outputs (h w)) (butlast d)
       = new @ butlast d" "set new \<subseteq> fmran' cs - wires"
    using fold_scan_neighbor by blast
  have step: "find_wires_step cs h (d, wires) = (new @ butlast d, insert w wires)"
    using new by (simp add: find_wires_step_def w_def Let_def)
  have d: "d = butlast d @ [w]"
    using assms by (simp add: w_def)
  have sub: "unvisited cs (new @ butlast d, insert w wires) \<subseteq> unvisited cs (d, wires) - {w}"
    using new(2) by (auto simp: unvisited_def dest: in_set_butlastD)
  show ?thesis
  proof (cases "w \<in> wires")
    case False
    have "w \<in> unvisited cs (d, wires)"
      using False d by (auto simp: unvisited_def) (metis in_set_conv_decomp)
    then have "unvisited cs (new @ butlast d, insert w wires) \<subset> unvisited cs (d, wires)"
      using sub by blast
    then show ?thesis
      unfolding step by (intro disjI1 psubset_card_mono finite_unvisited)
  next
    case True
    then have ins: "insert w wires = wires" by blast
    have le: "card (unvisited cs (new @ butlast d, wires)) \<le> card (unvisited cs (d, wires))"
      using sub ins by (intro card_mono finite_unvisited) auto
    have "filter (\<lambda>r. r \<in> wires) new = []"
      using new(2) by (auto simp: filter_empty_conv)
    moreover have "length (filter (\<lambda>r. r \<in> wires) d)
        = Suc (length (filter (\<lambda>r. r \<in> wires) (butlast d)))"
      by (subst d) (simp add: True)
    ultimately have "stale (new @ butlast d, wires) < stale (d, wires)"
      by (simp add: stale_def)
    with le show ?thesis unfolding step ins by linarith
  qed
qed

function find_wires_loop ::
  "(coord, ref) fmap \<Rightarrow> (ref \<Rightarrow> circuit) \<Rightarrow> ref list \<times> ref set \<Rightarrow> ref set" where
  "find_wires_loop cs h (d, wires) =
     (if d = [] then wires else find_wires_loop cs h (find_wires_step cs h (d, wires)))"
  by pat_completeness auto
termination
proof (relation "(\<lambda>(cs, h, s). card (unvisited cs s)) <*mlex*> measure (\<lambda>(cs, h, s). stale s)")
  show "wf ((\<lambda>(cs, h, s). card (unvisited cs s)) <*mlex*> measure (\<lambda>(cs, h, s). stale s))"
    by (simp add: wf_mlex)
next
  fix cs :: "(coord, ref) fmap" and h :: "ref \<Rightarrow> circuit" and d :: "ref list" and wires :: "ref set"
  assume "d \<noteq> []"
  from find_wires_step_decreases [OF this, of cs h wires]
  show "((cs, h, find_wires_step cs h (d, wires)), (cs, h, d, wires))
          \<in> (\<lambda>(cs, h, s). card (unvisited cs s)) <*mlex*> measure (\<lambda>(cs, h, s). stale s)"
    by (auto intro: mlex_less mlex_leq)
qed


definition find_wires :: "state \<Rightarrow> coord \<Rightarrow> ref set option" where
  \<comment> \<open>\<open>None\<close> is Python's \<open>None\<close>\<close>
  "find_wires s xyz =
     (case fmlookup (circuits s) xyz of
        None \<Rightarrow> None
      | Some root \<Rightarrow>
          if name (cls (heap s root)) \<noteq> ''wire'' then None
          else Some (find_wires_loop (circuits s) (heap s) ([root], {root})))"

text \<open>
  Wire-to-wire adjacency as the search sees it: the wires stored at the coordinates that
  the two scans of \<open>w\<close> yield, one entry for each scanned coordinate.
\<close>

definition wire_neighbors :: "(coord, ref) fmap \<Rightarrow> (ref \<Rightarrow> circuit) \<Rightarrow> ref \<Rightarrow> ref list" where
  "wire_neighbors cs h w =
     filter (\<lambda>c. name (cls (h c)) = ''wire'')
       (List.map_filter (fmlookup cs) (iter_inputs (h w) @ iter_outputs (h w)))"

definition adjacent :: "(coord, ref) fmap \<Rightarrow> (ref \<Rightarrow> circuit) \<Rightarrow> ref \<Rightarrow> ref \<Rightarrow> bool" where
  "adjacent cs h w c \<longleftrightarrow> c \<in> set (wire_neighbors cs h w)"

section \<open>Sequences of attach and detach calls\<close>

text \<open>
  A caller attaches and detaches circuits in any order; a call that raises leaves the
  state as it was and the caller goes on.
\<close>

datatype action = Connect ref | Disconnect ref

fun perform :: "action \<Rightarrow> state \<Rightarrow> state" where
  "perform (Connect c) s = snd (connect c s)"
| "perform (Disconnect c) s = snd (disconnect c s)"

definition run :: "action list \<Rightarrow> state \<Rightarrow> state" where
  "run acts s = fold perform acts s"

text \<open>
  A store of objects as their constructor leaves them (\<open>inputs = set()\<close>,
  \<open>outputs = set()\<close>), with the empty Asic.
\<close>

definition fresh :: "(ref \<Rightarrow> circuit) \<Rightarrow> bool" where
  "fresh h \<longleftrightarrow> (\<forall>r. inputs (h r) = {} \<and> outputs (h r) = {})"

definition initial :: "(ref \<Rightarrow> circuit) \<Rightarrow> state" where
  "initial h = \<lparr>heap = h, circuits = fmempty\<rparr>"

section \<open>Edge invariants and example configurations\<close>

definition edge_symmetry :: "(ref \<Rightarrow> circuit) \<Rightarrow> bool" where
  "edge_symmetry h \<longleftrightarrow> (\<forall>a b. a \<in> inputs (h b) \<longleftrightarrow> b \<in> outputs (h a))"

text \<open>
  \<open>feeds h a b\<close>: the check both loops of \<open>connect\<close> make before they add the edge from \<open>a\<close>
  to \<open>b\<close>, the name of the downstream circuit looked up in the upstream circuit's
  \<open>traceables\<close>.
\<close>

definition feeds :: "(ref \<Rightarrow> circuit) \<Rightarrow> ref \<Rightarrow> ref \<Rightarrow> bool" where
  "feeds h a b \<longleftrightarrow> name (cls (h b)) \<in> set (traceables (cls (h a)))"

definition edges_follow_traceables :: "(ref \<Rightarrow> circuit) \<Rightarrow> bool" where
  "edges_follow_traceables h \<longleftrightarrow> (\<forall>a b. a \<in> inputs (h b) \<longrightarrow> feeds h a b)"

text \<open>The three statements of \<open>disconnect\<close> that change the store, after its two checks.\<close>

definition detached :: "ref \<Rightarrow> (ref \<Rightarrow> circuit) \<Rightarrow> (ref \<Rightarrow> circuit)" where
  "detached self h =
     (let h1 = discard_from_outputs self h;
          h2 = discard_from_inputs self h1
      in h2(self := (h2 self)\<lparr>inputs := {}, outputs := {}\<rparr>))"

text \<open>A circuit with no edges and status off, and three small stores of such circuits.\<close>

definition blank :: "cls \<Rightarrow> coord \<Rightarrow> string \<Rightarrow> circuit" where
  "blank k c orient =
     \<lparr>cls = k, coords = c, orientation = orient, status = False, inputs = {}, outputs = {}\<rparr>"

definition wire_then_plain :: "ref \<Rightarrow> circuit" where
  \<comment> \<open>a wire at the origin (reference 0) and a plain block east of it (reference 1)\<close>
  "wire_then_plain = (\<lambda>r. blank Wire (0, 0, 0) [])(1 := blank PlainBlock (1, 0, 0) [])"

definition torch_between_plains :: "ref \<Rightarrow> circuit" where
  \<comment> \<open>a torch at the origin mounted on the block below it (reference 0), a plain block
      east of it (reference 1) and one west of it (reference 2)\<close>
  "torch_between_plains =
     (\<lambda>r. blank Torch (0, 0, 0) ''+y'')
       (1 := blank PlainBlock (1, 0, 0) [], 2 := blank PlainBlock (- 1, 0, 0) [])"

definition wire_square :: "ref \<Rightarrow> circuit" where
  \<comment> \<open>four wires on the corners of a unit square, references 0 to 3\<close>
  "wire_square =
     (\<lambda>r. blank Wire (0, 0, 0) [])
       (1 := blank Wire (1, 0, 0) [], 2 := blank Wire (0, 0, 1) [], 3 := blank Wire (1, 0, 1) [])"

definition square_asic :: state where
  \<comment> \<open>the four wires of the square, attached in turn\<close>
  "square_asic = run [Connect 0, Connect 1, Connect 2, Connect 3] (initial wire_square)"

definition lit_wire :: "ref \<Rightarrow> circuit" where
  \<comment> \<open>a wire that is off (reference 0), fed by a block that is on (reference 1) and
      feeding reference 2\<close>
  "lit_wire = (\<lambda>r. blank Wire (0, 0, 0) [])
     (0 := (blank Wire (0, 0, 0) [])\<lparr>inputs := {1}, outputs := {2}\<rparr>,
      1 := (blank PlainBlock (1, 0, 0) [])\<lparr>status := True, outputs := {0}\<rparr>)"

text \<open>
  The invariant of the search from \<open>root\<close>: the root is visited, everything visited or
  queued is reachable from the root, and a visited wire that is no longer queued has all
  its neighbouring wires visited or queued.
\<close>

definition search_invariant ::
  "(coord, ref) fmap \<Rightarrow> (ref \<Rightarrow> circuit) \<Rightarrow> ref \<Rightarrow> ref list \<times> ref set \<Rightarrow> bool" where
  "search_invariant cs h root = (\<lambda>(d, wires).
     root \<in> wires
     \<and> (\<forall>x \<in> wires \<union> set d. (adjacent cs h)\<^sup>*\<^sup>* root x)
     \<and> (\<forall>x \<in> wires - set d. \<forall>c. adjacent cs h x c \<longrightarrow> c \<in> wires \<union> set d))"

section \<open>The codec\<close>

lemma or_8_absorb:
  fixes m :: int
  assumes "m AND 8 \<noteq> 0"
  shows "m OR 8 = m"
proof -
  have b: "bit m 3"
  proof (rule ccontr)
    assume nb: "\<not> bit m 3"
    have "m AND 8 = 0"
    proof (rule bit_eqI)
      fix n
      have "bit (8::int) n \<longleftrightarrow> n = 3"
        using bit_push_bit_iff [of 3 "1::int" n] by (auto simp: bit_1_iff)
      then show "bit (m AND 8) n \<longleftrightarrow> bit (0::int) n"
        using nb by (auto simp: bit_and_iff)
    qed
    with assms show False by simp
  qed
  show ?thesis
  proof (rule bit_eqI)
    fix n
    have "bit (8::int) n \<longleftrightarrow> n = 3"
      using bit_push_bit_iff [of 3 "1::int" n] by (auto simp: bit_1_iff)
    then show "bit (m OR 8) n \<longleftrightarrow> bit m n"
      using b by (auto simp: bit_or_iff)
  qed
qed

lemma bit_8_int: "bit (8::int) n \<longleftrightarrow> n = 3"
  using bit_push_bit_iff [of 3 "1::int" n] by (auto simp: bit_1_iff)

lemma bit_minus_9_int: "bit (- 9::int) n \<longleftrightarrow> n \<noteq> 3"
proof -
  have "(- 9::int) = NOT 8" by simp
  then show ?thesis by (simp only: bit_not_iff bit_8_int) simp
qed

lemma and_not_8_absorb:
  fixes m :: int
  assumes "m AND 8 = 0"
  shows "m AND - 9 = m"
proof (rule bit_eqI)
  fix n
  have "bit (m AND 8) 3 \<longleftrightarrow> bit (0::int) 3"
    using assms by simp
  then have "\<not> bit m 3"
    by (simp add: bit_and_iff bit_8_int)
  then show "bit (m AND - 9) n \<longleftrightarrow> bit m n"
    by (auto simp: bit_and_iff bit_minus_9_int)
qed

text \<open>
  C7. Codec round-trip: folding the Boolean reading of a block back into the block gives
  the block back. It holds for every block and every metadata value, whatever the four slot
  numbers are, so in particular for the four handled kinds.
\<close>

theorem codec_round_trip:
  "truthify_block blocks (bbool blocks block metadata) block metadata = (block, metadata)"
  by (simp add: truthify_block_def bbool_def or_8_absorb and_not_8_absorb)

text \<open>
  C8. The cases of \<open>truthify_block\<close>, for a block table whose four slots are pairwise
  distinct: either torch slot becomes the on-slot or the off-slot and keeps its metadata; a
  wire keeps a nonzero metadata when true, takes \<open>0xF\<close> when true with metadata zero and \<open>0\<close>
  when false; a lever gets bit \<open>0x8\<close> set or cleared (bit 3 of the result is the truth value,
  every other bit is the metadata's); any other block comes back unchanged. The function is
  total: it returns a pair on every input.
\<close>

theorem truthify_block_cases:
  assumes "distinct [redstone_torch blocks, redstone_torch_off blocks,
                     redstone_wire blocks, lever blocks]"
  shows "(block = redstone_torch blocks \<or> block = redstone_torch_off blocks \<longrightarrow>
            truthify_block blocks truth block metadata =
              (if truth then redstone_torch blocks else redstone_torch_off blocks, metadata))
       \<and> (block = redstone_wire blocks \<longrightarrow>
            truthify_block blocks truth block metadata =
              (block, if truth then (if metadata = 0 then 0xF else metadata) else 0))
       \<and> (block = lever blocks \<longrightarrow>
            truthify_block blocks truth block metadata =
              (block, if truth then metadata OR 0x8 else metadata AND NOT 0x8)
            \<and> (\<forall>n. bit (snd (truthify_block blocks truth block metadata)) n
                     = (if n = 3 then truth else bit metadata n)))
       \<and> (block \<notin> {redstone_torch blocks, redstone_torch_off blocks,
                     redstone_wire blocks, lever blocks} \<longrightarrow>
            truthify_block blocks truth block metadata = (block, metadata))
       \<and> (\<exists>b m. truthify_block blocks truth block metadata = (b, m))"
  using assms
  by (auto simp: truthify_block_def bit_or_iff bit_and_iff bit_minus_9_int bit_8_int)

theorem truthify_block_cases_witness:
  "truthify_block \<lparr>redstone_torch = 76, redstone_torch_off = 75, redstone_wire = 55, lever = 69\<rparr>
       True 75 3 = (76, 3)
   \<and> truthify_block \<lparr>redstone_torch = 76, redstone_torch_off = 75, redstone_wire = 55, lever = 69\<rparr>
       True 1 3 = (1, 3)"
  using truthify_block_cases
    [of "\<lparr>redstone_torch = 76, redstone_torch_off = 75, redstone_wire = 55, lever = 69\<rparr>"
        75 True 3]
    truthify_block_cases
    [of "\<lparr>redstone_torch = 76, redstone_torch_off = 75, redstone_wire = 55, lever = 69\<rparr>"
        1 True 3]
  by simp

section \<open>Scans of a torch\<close>

lemmas eval_defs = run_def initial_def connect_def disconnect_def Let_def connect_input_def
  connect_output_def add_input_def add_output_def iter_inputs_def iter_outputs_def
  Circuit_iter_inputs_def Circuit_iter_outputs_def Torch_iter_inputs_def Torch_iter_outputs_def
  Lever_iter_inputs_def Lever_iter_outputs_def blank_def discard_from_inputs_def
  discard_from_outputs_def

lemma Torch_iter_outputs_yields_one:
  "Torch_iter_outputs self =
     (case coords self of (x, y, z) \<Rightarrow>
        if orientation self = ''+x'' then [(x + 1, y, z)] else [(x - 1, y, z)])"
  by (simp add: Torch_iter_outputs_def split: prod.splits)

text \<open>
  C1. The output scan of a torch. The claim asks for the four horizontal neighbours
  without the mounting block, so all four for a torch mounted on the block below it. The
  chain of \<open>elif\<close> branches yields one coordinate only: for the torch at the origin with
  orientation \<open>+y\<close> the scan is the single western neighbour, and the other three
  horizontal neighbours are missing.
\<close>

theorem torch_iter_outputs_mounted_below:
  "iter_outputs (blank Torch (0, 0, 0) ''+y'') = [(- 1, 0, 0)]
   \<and> set (iter_outputs (blank Torch (0, 0, 0) ''+y''))
       \<noteq> {(- 1, 0, 0), (1, 0, 0), (0, 0, - 1), (0, 0, 1)}"
  by (simp add: eval_defs)

section \<open>Edges after attach and detach\<close>

lemma cls_add_input [simp]: "cls (add_input c t h r) = cls (h r)"
  by (simp add: add_input_def)

lemma cls_add_output [simp]: "cls (add_output c t h r) = cls (h r)"
  by (simp add: add_output_def)

lemma cls_connect_input [simp]: "cls (connect_input cs self co h r) = cls (h r)"
  by (simp add: connect_input_def split: option.splits)

lemma cls_connect_output [simp]: "cls (connect_output cs self co h r) = cls (h r)"
  by (simp add: connect_output_def split: option.splits)

lemma edge_symmetry_add:
  assumes "edge_symmetry h"
  shows "edge_symmetry (add_output a b (add_input b a h))"
  using assms unfolding edge_symmetry_def add_input_def add_output_def
  by (auto simp: fun_upd_def)

lemma edge_symmetry_connect_input:
  "edge_symmetry h \<Longrightarrow> edge_symmetry (connect_input cs self co h)"
  by (auto simp: connect_input_def edge_symmetry_add split: option.splits)

lemma edge_symmetry_connect_output:
  "edge_symmetry h \<Longrightarrow> edge_symmetry (connect_output cs self co h)"
  by (auto simp: connect_output_def edge_symmetry_add split: option.splits)

lemma feeds_cong: "(\<And>r. cls (h' r) = cls (h r)) \<Longrightarrow> feeds h' a b = feeds h a b"
  by (simp add: feeds_def)

lemma legal_add:
  assumes "edges_follow_traceables h" "feeds h a b"
  shows "edges_follow_traceables (add_output a b (add_input b a h))"
proof -
  have f: "feeds (add_output a b (add_input b a h)) = feeds h"
    by (intro ext feeds_cong) simp
  show ?thesis
    using assms unfolding edges_follow_traceables_def f
    by (auto simp: add_input_def add_output_def)
qed

lemma legal_connect_input:
  "edges_follow_traceables h \<Longrightarrow> edges_follow_traceables (connect_input cs self co h)"
  by (auto simp: connect_input_def feeds_def intro!: legal_add split: option.splits)

lemma legal_connect_output:
  "edges_follow_traceables h \<Longrightarrow> edges_follow_traceables (connect_output cs self co h)"
  by (auto simp: connect_output_def feeds_def intro!: legal_add split: option.splits)

lemma fold_preserves:
  assumes "\<And>x h. P h \<Longrightarrow> P (f x h)" "P h"
  shows "P (fold f xs h)"
  using assms(2) by (induction xs arbitrary: h) (auto intro: assms(1))

lemma connect_heap_cases:
  "snd (connect c s) = s \<or>
   (\<exists>cs xs ys. heap (snd (connect c s)) =
       fold (connect_output cs c) ys (fold (connect_input cs c) xs (heap s)))"
  by (auto simp: connect_def Let_def)

lemma edge_symmetry_connect:
  assumes "edge_symmetry (heap s)"
  shows "edge_symmetry (heap (snd (connect c s)))"
proof -
  have "edge_symmetry (fold (connect_output cs c) ys (fold (connect_input cs c) xs (heap s)))"
    for cs xs ys
    by (intro fold_preserves [where P = edge_symmetry] edge_symmetry_connect_output
          edge_symmetry_connect_input assms)
  then show ?thesis
    using connect_heap_cases [of c s] assms by auto
qed

lemma legal_connect:
  assumes "edges_follow_traceables (heap s)"
  shows "edges_follow_traceables (heap (snd (connect c s)))"
proof -
  have "edges_follow_traceables
          (fold (connect_output cs c) ys (fold (connect_input cs c) xs (heap s)))"
    for cs xs ys
    by (intro fold_preserves [where P = edges_follow_traceables] legal_connect_output
          legal_connect_input assms)
  then show ?thesis
    using connect_heap_cases [of c s] assms by auto
qed

lemma disconnect_heap_cases:
  "snd (disconnect c s) = s \<or> heap (snd (disconnect c s)) = detached c (heap s)"
  by (auto simp: disconnect_def detached_def Let_def split: option.splits)

lemma inputs_detached:
  "inputs (detached c h r) = (if r = c then {} else
      if r \<in> outputs (h c) then inputs (h r) - {c} else inputs (h r))"
  by (auto simp: detached_def discard_from_outputs_def discard_from_inputs_def Let_def)

lemma outputs_detached:
  "outputs (detached c h r) = (if r = c then {} else
      if r \<in> inputs (h c) then outputs (h r) - {c} else outputs (h r))"
  by (auto simp: detached_def discard_from_outputs_def discard_from_inputs_def Let_def)

lemma cls_detached [simp]: "cls (detached c h r) = cls (h r)"
  by (auto simp: detached_def discard_from_outputs_def discard_from_inputs_def Let_def)

lemma edge_symmetry_detached:
  assumes "edge_symmetry h"
  shows "edge_symmetry (detached c h)"
  using assms unfolding edge_symmetry_def inputs_detached outputs_detached
  by auto

lemma legal_detached:
  assumes "edges_follow_traceables h"
  shows "edges_follow_traceables (detached c h)"
proof -
  have f: "feeds (detached c h) = feeds h"
    by (intro ext feeds_cong) simp
  show ?thesis
    using assms unfolding edges_follow_traceables_def f inputs_detached
    by (auto split: if_splits)
qed

lemma edge_symmetry_perform:
  assumes "edge_symmetry (heap s)"
  shows "edge_symmetry (heap (perform a s))"
proof (cases a)
  case (Connect c)
  then show ?thesis using assms by (simp add: edge_symmetry_connect)
next
  case (Disconnect c)
  then show ?thesis
    using assms disconnect_heap_cases [of c s] edge_symmetry_detached [of "heap s" c]
    by auto
qed

lemma legal_perform:
  assumes "edges_follow_traceables (heap s)"
  shows "edges_follow_traceables (heap (perform a s))"
proof (cases a)
  case (Connect c)
  then show ?thesis using assms by (simp add: legal_connect)
next
  case (Disconnect c)
  then show ?thesis
    using assms disconnect_heap_cases [of c s] legal_detached [of "heap s" c]
    by auto
qed

lemma edge_symmetry_run:
  "edge_symmetry (heap s) \<Longrightarrow> edge_symmetry (heap (run acts s))"
  unfolding run_def
  by (induction acts arbitrary: s) (auto intro: edge_symmetry_perform)

lemma legal_run:
  "edges_follow_traceables (heap s) \<Longrightarrow> edges_follow_traceables (heap (run acts s))"
  unfolding run_def
  by (induction acts arbitrary: s) (auto intro: legal_perform)

lemma fresh_edge_symmetry: "fresh h \<Longrightarrow> edge_symmetry h"
  by (simp add: fresh_def edge_symmetry_def)

lemma fresh_legal: "fresh h \<Longrightarrow> edges_follow_traceables h"
  by (simp add: fresh_def edges_follow_traceables_def)


text \<open>
  C2, as the claim states it: an edge from \<open>a\<close> to \<open>b\<close> would need the name of \<open>a\<close> among the
  traceables of \<open>b\<close>. Attaching a wire and then a plain block beside it makes the wire an
  input of the plain block, and \<open>wire\<close> is not among the traceables of a plain block.
\<close>

theorem edge_legality_counterexample:
  "0 \<in> inputs (heap (run [Connect 0, Connect 1] (initial wire_then_plain)) 1)
   \<and> 1 \<in> outputs (heap (run [Connect 0, Connect 1] (initial wire_then_plain)) 0)
   \<and> name (cls (heap (run [Connect 0, Connect 1] (initial wire_then_plain)) 0))
       \<notin> set (traceables (cls (heap (run [Connect 0, Connect 1] (initial wire_then_plain)) 1)))"
  by (simp add: eval_defs wire_then_plain_def)

text \<open>
  C2, amended. After any sequence of attach and detach calls on a store of fresh circuits
  and the empty Asic, every edge from \<open>a\<close> to \<open>b\<close> (\<open>a\<close> in the inputs of \<open>b\<close>, or \<open>b\<close> in the
  outputs of \<open>a\<close>) has the name of \<open>b\<close> among the traceables of \<open>a\<close>: the traceables of a
  circuit name the kinds it feeds.
\<close>

theorem edge_legality:
  assumes "fresh h"
    and "a \<in> inputs (heap (run acts (initial h)) b) \<or> b \<in> outputs (heap (run acts (initial h)) a)"
  shows "name (cls (heap (run acts (initial h)) b))
           \<in> set (traceables (cls (heap (run acts (initial h)) a)))"
proof -
  have "edge_symmetry (heap (run acts (initial h)))"
    using assms(1) by (intro edge_symmetry_run) (simp add: initial_def fresh_edge_symmetry)
  with assms(2) have "a \<in> inputs (heap (run acts (initial h)) b)"
    by (auto simp: edge_symmetry_def)
  moreover have "edges_follow_traceables (heap (run acts (initial h)))"
    using assms(1) by (intro legal_run) (simp add: initial_def fresh_legal)
  ultimately show ?thesis
    by (auto simp: edges_follow_traceables_def feeds_def)
qed

theorem edge_legality_witness:
  "fresh wire_then_plain
   \<and> 0 \<in> inputs (heap (run [Connect 0, Connect 1] (initial wire_then_plain)) 1)
   \<and> name (cls (heap (run [Connect 0, Connect 1] (initial wire_then_plain)) 1))
       \<in> set (traceables (cls (heap (run [Connect 0, Connect 1] (initial wire_then_plain)) 0)))"
proof -
  have f: "fresh wire_then_plain"
    by (simp add: fresh_def wire_then_plain_def blank_def)
  have e: "0 \<in> inputs (heap (run [Connect 0, Connect 1] (initial wire_then_plain)) 1)"
    by (simp add: eval_defs wire_then_plain_def)
  from edge_legality [OF f disjI1, OF e] f e show ?thesis by simp
qed

text \<open>
  C3. Edge symmetry: after any sequence of attach and detach calls on a store of fresh
  circuits and the empty Asic, \<open>a\<close> is an input of \<open>b\<close> exactly when \<open>b\<close> is an output of \<open>a\<close>,
  for all circuits of the store and so for all those the Asic holds.
\<close>

theorem edge_symmetry_after_run:
  assumes "fresh h"
  shows "a \<in> inputs (heap (run acts (initial h)) b)
           \<longleftrightarrow> b \<in> outputs (heap (run acts (initial h)) a)"
proof -
  have "edge_symmetry (heap (run acts (initial h)))"
    using assms by (intro edge_symmetry_run) (simp add: initial_def fresh_edge_symmetry)
  then show ?thesis by (simp add: edge_symmetry_def)
qed

theorem edge_symmetry_after_run_witness:
  "fresh torch_between_plains
   \<and> (1 \<in> inputs (heap (run [Connect 0, Connect 1, Disconnect 2, Connect 2, Disconnect 1]
                          (initial torch_between_plains)) 0)
        \<longleftrightarrow> 0 \<in> outputs (heap (run [Connect 0, Connect 1, Disconnect 2, Connect 2, Disconnect 1]
                          (initial torch_between_plains)) 1))
   \<and> 2 \<in> inputs (heap (run [Connect 0, Connect 1, Disconnect 2, Connect 2, Disconnect 1]
                          (initial torch_between_plains)) 0)
   \<and> 0 \<in> outputs (heap (run [Connect 0, Connect 1, Disconnect 2, Connect 2, Disconnect 1]
                          (initial torch_between_plains)) 2)"
proof -
  have f: "fresh torch_between_plains"
    by (simp add: fresh_def torch_between_plains_def blank_def)
  have e: "2 \<in> inputs (heap (run [Connect 0, Connect 1, Disconnect 2, Connect 2, Disconnect 1]
                          (initial torch_between_plains)) 0)"
    by (simp add: eval_defs torch_between_plains_def)
  from edge_symmetry_after_run [OF f, of 1 "[Connect 0, Connect 1, Disconnect 2, Connect 2, Disconnect 1]" 0]
    edge_symmetry_after_run [OF f, of 2 "[Connect 0, Connect 1, Disconnect 2, Connect 2, Disconnect 1]" 0]
    f e
  show ?thesis by simp
qed

text \<open>
  C4. A torch is meant to have one input, the block it is mounted on: its input scan yields
  that block only, and its operator \<open>not_\<close> takes one argument. The output loop of \<open>connect\<close>
  does not look at the orientation of the torch it reaches: a plain block attached beside
  a torch becomes an input of the torch. Here the torch at the origin is mounted on the
  block below it, nothing is stored there, and after two plain blocks are attached east
  and west of it the torch has both as inputs; its update then raises \<open>TypeError\<close>.
\<close>

theorem torch_gets_two_inputs:
  "inputs (heap (run [Connect 0, Connect 1, Connect 2] (initial torch_between_plains)) 0) = {1, 2}
   \<and> card (inputs (heap (run [Connect 0, Connect 1, Connect 2] (initial torch_between_plains)) 0)) = 2
   \<and> iter_inputs (heap (run [Connect 0, Connect 1, Connect 2] (initial torch_between_plains)) 0)
       = [(0, - 1, 0)]
   \<and> fmlookup (circuits (run [Connect 0, Connect 1, Connect 2] (initial torch_between_plains)))
       (0, - 1, 0) = None
   \<and> fst (update 0 (heap (run [Connect 0, Connect 1, Connect 2] (initial torch_between_plains))))
       = Inl TypeError"
  by (simp add: eval_defs torch_between_plains_def insert_commute update_def op_def
      is_singleton_def doubleton_eq_iff)

section \<open>Detaching a circuit\<close>

lemma disconnect_absent:
  "fmlookup (circuits s) (coords (heap s c)) = None \<Longrightarrow>
     disconnect c s = (Some (RedstoneError ''Circuit can't detach from ASIC!''), s)"
  by (simp add: disconnect_def)

lemma disconnect_other:
  "fmlookup (circuits s) (coords (heap s c)) = Some r \<Longrightarrow> r \<noteq> c \<Longrightarrow>
     disconnect c s = (Some (RedstoneError ''Circuit can't detach another circuit!''), s)"
  by (simp add: disconnect_def)

lemma disconnect_attached:
  "fmlookup (circuits s) (coords (heap s c)) = Some c \<Longrightarrow>
     disconnect c s =
       (None, \<lparr>heap = detached c (heap s), circuits = fmdrop (coords (heap s c)) (circuits s)\<rparr>)"
  by (simp add: disconnect_def detached_def Let_def)

lemma detached_other_fields:
  "cls (detached c h r) = cls (h r) \<and> coords (detached c h r) = coords (h r)
   \<and> orientation (detached c h r) = orientation (h r) \<and> status (detached c h r) = status (h r)"
  by (auto simp: detached_def discard_from_outputs_def discard_from_inputs_def Let_def)

lemma detached_edges:
  assumes "edge_symmetry h"
  shows "inputs (detached c h r) = (if r = c then {} else inputs (h r) - {c})"
    and "outputs (detached c h r) = (if r = c then {} else outputs (h r) - {c})"
  using assms unfolding inputs_detached outputs_detached edge_symmetry_def by auto

text \<open>
  C9. \<open>disconnect\<close> on a state reached by attach and detach calls from fresh circuits and
  the empty Asic. If nothing is stored at the coordinates of \<open>c\<close> the call raises
  \<open>RedstoneError\<close> with the message of a circuit that is not attached, if another circuit
  is stored there it raises \<open>RedstoneError\<close> with the message of a mismatch, and in both
  cases the state is the one before the call. Otherwise the call succeeds: no circuit of
  the store has \<open>c\<close> among its inputs or outputs any more, every other circuit keeps its
  other edges, the edge sets of \<open>c\<close> are empty, and the entry of \<open>c\<close> is gone from the
  dictionary.
\<close>

theorem disconnect_detaches:
  assumes "fresh h" and "s = run acts (initial h)"
  shows "(fmlookup (circuits s) (coords (heap s c)) = None \<longrightarrow>
            disconnect c s = (Some (RedstoneError ''Circuit can't detach from ASIC!''), s))
       \<and> (\<forall>r. fmlookup (circuits s) (coords (heap s c)) = Some r \<and> r \<noteq> c \<longrightarrow>
            disconnect c s = (Some (RedstoneError ''Circuit can't detach another circuit!''), s))
       \<and> (fmlookup (circuits s) (coords (heap s c)) = Some c \<longrightarrow>
            fst (disconnect c s) = None
            \<and> (\<forall>r. c \<notin> inputs (heap (snd (disconnect c s)) r)
                   \<and> c \<notin> outputs (heap (snd (disconnect c s)) r))
            \<and> (\<forall>r. r \<noteq> c \<longrightarrow>
                   inputs (heap (snd (disconnect c s)) r) = inputs (heap s r) - {c}
                   \<and> outputs (heap (snd (disconnect c s)) r) = outputs (heap s r) - {c})
            \<and> inputs (heap (snd (disconnect c s)) c) = {}
            \<and> outputs (heap (snd (disconnect c s)) c) = {}
            \<and> circuits (snd (disconnect c s)) = fmdrop (coords (heap s c)) (circuits s)
            \<and> fmlookup (circuits (snd (disconnect c s))) (coords (heap s c)) = None)"
proof -
  have sym: "edge_symmetry (heap s)"
    unfolding assms(2) using assms(1)
    by (intro edge_symmetry_run) (simp add: initial_def fresh_edge_symmetry)
  show ?thesis
    by (auto simp: disconnect_absent disconnect_other disconnect_attached
        detached_edges [OF sym])
qed

theorem disconnect_detaches_witness:
  "fresh torch_between_plains
   \<and> fmlookup (circuits (run [Connect 0, Connect 1] (initial torch_between_plains)))
        (coords (heap (run [Connect 0, Connect 1] (initial torch_between_plains)) 1)) = Some 1
   \<and> 1 \<in> inputs (heap (run [Connect 0, Connect 1] (initial torch_between_plains)) 0)
   \<and> fst (disconnect 1 (run [Connect 0, Connect 1] (initial torch_between_plains))) = None
   \<and> 1 \<notin> inputs (heap (snd (disconnect 1 (run [Connect 0, Connect 1]
                           (initial torch_between_plains)))) 0)
   \<and> fmlookup (circuits (run [Connect 0, Connect 1] (initial torch_between_plains)))
        (coords (heap (run [Connect 0, Connect 1] (initial torch_between_plains)) 2)) = None
   \<and> fst (disconnect 2 (run [Connect 0, Connect 1] (initial torch_between_plains)))
        = Some (RedstoneError ''Circuit can't detach from ASIC!'')"
proof -
  have f: "fresh torch_between_plains"
    by (simp add: fresh_def torch_between_plains_def blank_def)
  have a: "fmlookup (circuits (run [Connect 0, Connect 1] (initial torch_between_plains)))
        (coords (heap (run [Connect 0, Connect 1] (initial torch_between_plains)) 1)) = Some 1"
    by (simp add: eval_defs torch_between_plains_def)
  have b: "fmlookup (circuits (run [Connect 0, Connect 1] (initial torch_between_plains)))
        (coords (heap (run [Connect 0, Connect 1] (initial torch_between_plains)) 2)) = None"
    by (simp add: eval_defs torch_between_plains_def)
  have e: "1 \<in> inputs (heap (run [Connect 0, Connect 1] (initial torch_between_plains)) 0)"
    by (simp add: eval_defs torch_between_plains_def)
  from disconnect_detaches [OF f refl, of "[Connect 0, Connect 1]" 1]
    disconnect_detaches [OF f refl, of "[Connect 0, Connect 1]" 2] f a b e
  show ?thesis by simp
qed

section \<open>Updating a gate\<close>

text \<open>
  C6. \<open>update\<close>: with no inputs it returns the empty collection and changes nothing.
  Otherwise it applies the operator to the statuses of the inputs (the disjunction for a
  wire and a plain block, the negation of the single input for a torch); when the operator
  returns the old status, \<open>update\<close> returns the empty collection and changes nothing, and
  when it returns another value, \<open>update\<close> stores it as the status and returns the
  outputs. When the operator raises, so does \<open>update\<close>, and nothing is changed.
\<close>

theorem update_cases:
  "(inputs (h self) = {} \<longrightarrow> update self h = (Inr {}, h))
   \<and> (inputs (h self) \<noteq> {} \<longrightarrow>
        (\<forall>new. op h self = Inr new \<longrightarrow>
           (new = status (h self) \<longrightarrow> update self h = (Inr {}, h))
           \<and> (new \<noteq> status (h self) \<longrightarrow>
                update self h = (Inr (outputs (h self)), h(self := (h self)\<lparr>status := new\<rparr>))))
        \<and> (\<forall>e. op h self = Inl e \<longrightarrow> update self h = (Inl e, h)))
   \<and> (cls (h self) = Wire \<or> cls (h self) = PlainBlock \<longrightarrow>
        op h self = Inr (\<exists>i \<in> inputs (h self). status (h i)))
   \<and> (\<forall>i. cls (h self) = Torch \<and> inputs (h self) = {i} \<longrightarrow>
        op h self = Inr (\<not> status (h i)))"
  by (auto simp: update_def op_def is_singleton_def)

theorem update_cases_witness:
  "inputs (lit_wire 0) \<noteq> {} \<and> op lit_wire 0 = Inr True \<and> True \<noteq> status (lit_wire 0)
   \<and> fst (update 0 lit_wire) = Inr {2} \<and> status (snd (update 0 lit_wire) 0)
   \<and> update 2 lit_wire = (Inr {}, lit_wire)"
proof -
  have a: "inputs (lit_wire 0) \<noteq> {}" "op lit_wire 0 = Inr True" "True \<noteq> status (lit_wire 0)"
    "inputs (lit_wire 2) = {}" "outputs (lit_wire 0) = {2}"
    by (simp_all add: lit_wire_def blank_def op_def)
  from update_cases [of lit_wire 0] update_cases [of lit_wire 2] a
  show ?thesis by auto
qed

section \<open>The wire group of a coordinate\<close>

lemma map_filter_append:
  "List.map_filter f (xs @ ys) = List.map_filter f xs @ List.map_filter f ys"
  unfolding List.map_filter_def by simp

lemma in_set_map_filter:
  "y \<in> set (List.map_filter f xs) \<longleftrightarrow> (\<exists>x \<in> set xs. f x = Some y)"
  by (induction xs) (auto split: option.splits)

lemma set_fold_scan_neighbor:
  "set (fold (scan_neighbor cs h wires) ns d)
     = set d \<union> (set (filter (\<lambda>c. name (cls (h c)) = ''wire'')
                       (List.map_filter (fmlookup cs) ns)) - wires)"
proof (induction ns arbitrary: d)
  case Nil
  show ?case by simp
next
  case (Cons n ns)
  have "scan_neighbor cs h wires n d = d \<and>
          set (filter (\<lambda>c. name (cls (h c)) = ''wire'') (List.map_filter (fmlookup cs) [n]))
            - wires = {}
      \<or> (\<exists>c. scan_neighbor cs h wires n d = c # d \<and>
          set (filter (\<lambda>c. name (cls (h c)) = ''wire'') (List.map_filter (fmlookup cs) [n]))
            - wires = {c})"
    by (cases "fmlookup cs n") (auto simp: scan_neighbor_def)
  moreover have "List.map_filter (fmlookup cs) (n # ns)
      = List.map_filter (fmlookup cs) [n] @ List.map_filter (fmlookup cs) ns"
    by (simp split: option.split)
  ultimately show ?case
    using Cons.IH [of "scan_neighbor cs h wires n d"] by auto
qed

lemma find_wires_step_unfold:
  "\<exists>d'. find_wires_step cs h (d, wires) = (d', insert (last d) wires)
       \<and> set d' = set (butlast d) \<union> (set (wire_neighbors cs h (last d)) - wires)"
  by (auto simp: find_wires_step_def Let_def set_fold_scan_neighbor wire_neighbors_def
      map_filter_append)

lemma search_invariant_step:
  assumes inv: "search_invariant cs h root (d, wires)" and ne: "d \<noteq> []"
  shows "search_invariant cs h root (find_wires_step cs h (d, wires))"
proof -
  define w where "w = last d"
  obtain d' where step: "find_wires_step cs h (d, wires) = (d', insert w wires)"
    and d': "set d' = set (butlast d) \<union> (set (wire_neighbors cs h w) - wires)"
    using find_wires_step_unfold [of cs h d wires] unfolding w_def by blast
  have d: "set d = insert w (set (butlast d))"
    using ne unfolding w_def by (metis append_butlast_last_id list.simps(15) rotate1.simps(2) set_rotate1)
  have root: "root \<in> wires"
    and reach: "\<And>x. x \<in> wires \<union> set d \<Longrightarrow> (adjacent cs h)\<^sup>*\<^sup>* root x"
    and closed: "\<And>x c. x \<in> wires \<Longrightarrow> x \<notin> set d \<Longrightarrow> adjacent cs h x c \<Longrightarrow> c \<in> wires \<union> set d"
    using inv by (auto simp: search_invariant_def)
  have w: "(adjacent cs h)\<^sup>*\<^sup>* root w"
    using reach d by blast
  have r': "(adjacent cs h)\<^sup>*\<^sup>* root x" if "x \<in> insert w wires \<union> set d'" for x
  proof (cases "x \<in> wires \<union> set d")
    case True
    then show ?thesis by (rule reach)
  next
    case False
    with that d d' have "x \<in> set (wire_neighbors cs h w)" by auto
    then have "adjacent cs h w x" by (simp add: adjacent_def)
    with w show ?thesis by (rule rtranclp.rtrancl_into_rtrancl)
  qed
  have c': "c \<in> insert w wires \<union> set d'"
    if "x \<in> insert w wires" "x \<notin> set d'" "adjacent cs h x c" for x c
  proof (cases "x = w")
    case True
    with that(3) have "c \<in> set (wire_neighbors cs h w)" by (simp add: adjacent_def)
    then show ?thesis using d' by auto
  next
    case False
    with that d d' have "x \<in> wires" "x \<notin> set d" by auto
    from closed [OF this that(3)] show ?thesis using d d' by auto
  qed
  show ?thesis
    unfolding step search_invariant_def using root r' c' by auto
qed

lemma search_invariant_result:
  assumes "search_invariant cs h root (d, wires)"
  shows "find_wires_loop cs h (d, wires) = {c. (adjacent cs h)\<^sup>*\<^sup>* root c}"
proof -
  have "search_invariant cs h root s \<Longrightarrow>
          find_wires_loop cs h s = {c. (adjacent cs h)\<^sup>*\<^sup>* root c}" for s
  proof (induction cs h s rule: find_wires_loop.induct)
  case (1 cs h d wires)
  show ?case
  proof (cases "d = []")
    case True
    have root: "root \<in> wires"
      and reach: "\<And>x. x \<in> wires \<Longrightarrow> (adjacent cs h)\<^sup>*\<^sup>* root x"
      and closed: "\<And>x c. x \<in> wires \<Longrightarrow> adjacent cs h x c \<Longrightarrow> c \<in> wires"
      using "1.prems" True by (auto simp: search_invariant_def)
    have "c \<in> wires" if "(adjacent cs h)\<^sup>*\<^sup>* root c" for c
      using that by (induction rule: rtranclp_induct) (auto intro: root closed)
    with reach have "wires = {c. (adjacent cs h)\<^sup>*\<^sup>* root c}" by auto
    with True show ?thesis by simp
  next
    case False
    from "1.IH" [OF False search_invariant_step [OF "1.prems" False]] False
    show ?thesis by simp
  qed
  qed
  with assms show ?thesis by blast
qed

lemma search_invariant_start: "search_invariant cs h root ([root], {root})"
  by (simp add: search_invariant_def)

lemma adjacent_is_stored_wire:
  "adjacent cs h w c \<Longrightarrow> name (cls (h c)) = ''wire'' \<and> c \<in> fmran' cs"
  by (auto simp: adjacent_def wire_neighbors_def in_set_map_filter intro: fmran'I)

lemma reachable_is_stored_wire:
  assumes "(adjacent cs h)\<^sup>*\<^sup>* root c" "name (cls (h root)) = ''wire''" "root \<in> fmran' cs"
  shows "name (cls (h c)) = ''wire'' \<and> c \<in> fmran' cs"
  using assms by (induction rule: rtranclp_induct) (auto dest: adjacent_is_stored_wire)

lemma name_wire_iff: "name k = ''wire'' \<longleftrightarrow> k = Wire"
  by (cases k) simp_all

lemma adjacent_wire_iff:
  assumes "name (cls (h w)) = ''wire''"
  shows "adjacent cs h w c \<longleftrightarrow>
           name (cls (h c)) = ''wire'' \<and> (\<exists>n \<in> set (Circuit_iter_inputs (h w)). fmlookup cs n = Some c)"
proof -
  have "cls (h w) = Wire" using assms by (simp add: name_wire_iff)
  then have scans: "set (iter_inputs (h w) @ iter_outputs (h w)) = set (Circuit_iter_inputs (h w))"
    by (simp add: iter_inputs_def iter_outputs_def Circuit_iter_inputs_def
        Circuit_iter_outputs_def)
  have "adjacent cs h w c \<longleftrightarrow> name (cls (h c)) = ''wire''
          \<and> (\<exists>n \<in> set (iter_inputs (h w) @ iter_outputs (h w)). fmlookup cs n = Some c)"
    unfolding adjacent_def wire_neighbors_def set_filter mem_Collect_eq in_set_map_filter
    by blast
  then show ?thesis unfolding scans .
qed

lemma square_circuits:
  "circuits square_asic
     = fmupd (1, 0, 1) 3 (fmupd (0, 0, 1) 2 (fmupd (1, 0, 0) 1 (fmupd (0, 0, 0) 0 fmempty)))"
  by (simp add: square_asic_def eval_defs wire_square_def)

lemma square_heap: "heap square_asic = wire_square"
  by (simp add: square_asic_def eval_defs wire_square_def)

lemmas search_defs = find_wires_step_def scan_neighbor_def iter_inputs_def iter_outputs_def
  Circuit_iter_inputs_def Circuit_iter_outputs_def wire_square_def blank_def Let_def

lemma square_find: "find_wires square_asic (0, 0, 0) = Some {0, 1, 2, 3}"
  unfolding find_wires_def square_circuits square_heap
  by (simp add: search_defs insert_commute)

lemma square_deque:
  "(find_wires_step (circuits square_asic) (heap square_asic) ^^ 5) ([0], {0}) = (replicate 8 3, {0, 1, 2})"
  unfolding square_circuits square_heap
  by (simp add: eval_nat_numeral search_defs insert_commute)


text \<open>
  C5, as the claim states it: on a coordinate that holds nothing, or holds a circuit that
  is not a wire, the result would be the empty set. \<open>find_wires\<close> returns \<open>None\<close> there and
  no set at all: on the empty Asic, and on the torch of the Asic that holds a torch only.
\<close>

theorem find_wires_none_counterexample:
  "find_wires (initial wire_square) (0, 0, 0) = None
   \<and> find_wires (initial wire_square) (0, 0, 0) \<noteq> Some {}
   \<and> fmlookup (circuits (run [Connect 0] (initial torch_between_plains))) (0, 0, 0) = Some 0
   \<and> find_wires (run [Connect 0] (initial torch_between_plains)) (0, 0, 0) = None
   \<and> find_wires (run [Connect 0] (initial torch_between_plains)) (0, 0, 0) \<noteq> Some {}"
  by (simp add: find_wires_def eval_defs torch_between_plains_def)

text \<open>
  C5, amended. If the coordinate holds a wire, \<open>find_wires\<close> returns a set: exactly the
  wires reachable from that wire through wire-to-wire adjacency, so the connected
  component of the seed. It contains the seed, all its members are wires stored in the
  Asic, and it is closed under horizontal adjacency: a wire stored at one of the four
  horizontal neighbours of a member is a member. If the coordinate holds nothing, or a
  circuit that is not a wire, \<open>find_wires\<close> returns \<open>None\<close>.
\<close>

theorem find_wires_component:
  "(\<forall>root. fmlookup (circuits s) xyz = Some root \<and> name (cls (heap s root)) = ''wire'' \<longrightarrow>
      (\<exists>S. find_wires s xyz = Some S
          \<and> S = {c. (adjacent (circuits s) (heap s))\<^sup>*\<^sup>* root c}
          \<and> root \<in> S
          \<and> (\<forall>c \<in> S. name (cls (heap s c)) = ''wire'' \<and> c \<in> fmran' (circuits s))
          \<and> (\<forall>c \<in> S. \<forall>n \<in> set (Circuit_iter_inputs (heap s c)). \<forall>c'.
                fmlookup (circuits s) n = Some c' \<and> name (cls (heap s c')) = ''wire''
                  \<longrightarrow> c' \<in> S)))
   \<and> (fmlookup (circuits s) xyz = None \<longrightarrow> find_wires s xyz = None)
   \<and> (\<forall>r. fmlookup (circuits s) xyz = Some r \<and> name (cls (heap s r)) \<noteq> ''wire'' \<longrightarrow>
         find_wires s xyz = None)"
proof (intro conjI allI impI)
  fix root
  assume a: "fmlookup (circuits s) xyz = Some root \<and> name (cls (heap s root)) = ''wire''"
  define S where "S = {c. (adjacent (circuits s) (heap s))\<^sup>*\<^sup>* root c}"
  have res: "find_wires s xyz = Some S"
    using a search_invariant_result [OF search_invariant_start, of "circuits s" "heap s" root]
    by (simp add: find_wires_def S_def)
  have root: "root \<in> S" by (simp add: S_def)
  have stored: "root \<in> fmran' (circuits s)"
    using a by (auto intro: fmran'I)
  have wires: "name (cls (heap s c)) = ''wire'' \<and> c \<in> fmran' (circuits s)" if "c \<in> S" for c
    using that a stored reachable_is_stored_wire [of "circuits s" "heap s" root c]
    by (simp add: S_def)
  have closed: "c' \<in> S"
    if "c \<in> S" "n \<in> set (Circuit_iter_inputs (heap s c))"
      "fmlookup (circuits s) n = Some c' \<and> name (cls (heap s c')) = ''wire''" for c n c'
  proof -
    have "adjacent (circuits s) (heap s) c c'"
      using that wires [OF that(1)] by (auto simp: adjacent_wire_iff)
    with that(1) show ?thesis
      unfolding S_def by (auto intro: rtranclp.rtrancl_into_rtrancl)
  qed
  show "\<exists>S. find_wires s xyz = Some S
          \<and> S = {c. (adjacent (circuits s) (heap s))\<^sup>*\<^sup>* root c}
          \<and> root \<in> S
          \<and> (\<forall>c \<in> S. name (cls (heap s c)) = ''wire'' \<and> c \<in> fmran' (circuits s))
          \<and> (\<forall>c \<in> S. \<forall>n \<in> set (Circuit_iter_inputs (heap s c)). \<forall>c'.
                fmlookup (circuits s) n = Some c' \<and> name (cls (heap s c')) = ''wire''
                  \<longrightarrow> c' \<in> S)"
    using res root wires closed unfolding S_def [symmetric] by blast
next
  assume "fmlookup (circuits s) xyz = None"
  then show "find_wires s xyz = None" by (simp add: find_wires_def)
next
  fix r
  assume "fmlookup (circuits s) xyz = Some r \<and> name (cls (heap s r)) \<noteq> ''wire''"
  then show "find_wires s xyz = None" by (simp add: find_wires_def)
qed

theorem find_wires_component_witness:
  "fmlookup (circuits square_asic) (0, 0, 0) = Some 0
   \<and> name (cls (heap square_asic 0)) = ''wire''
   \<and> find_wires square_asic (0, 0, 0) = Some {0, 1, 2, 3}
   \<and> {c. (adjacent (circuits square_asic) (heap square_asic))\<^sup>*\<^sup>* 0 c} = {0, 1, 2, 3}
   \<and> fmlookup (circuits square_asic) (5, 0, 0) = None
   \<and> find_wires square_asic (5, 0, 0) = None"
proof -
  have a: "fmlookup (circuits square_asic) (0, 0, 0) = Some 0"
    "name (cls (heap square_asic 0)) = ''wire''"
    "fmlookup (circuits square_asic) (5, 0, 0) = None"
    unfolding square_circuits square_heap by (simp_all add: wire_square_def blank_def)
  from find_wires_component [of square_asic "(0, 0, 0)"]
    find_wires_component [of square_asic "(5, 0, 0)"] a square_find
  show ?thesis by auto
qed

section \<open>Termination of the search\<close>

lemma find_wires_loop_iterations:
  "\<exists>n. fst ((find_wires_step cs h ^^ n) s) = []
      \<and> find_wires_loop cs h s = snd ((find_wires_step cs h ^^ n) s)"
proof (induction cs h s rule: find_wires_loop.induct)
  case (1 cs h d wires)
  show ?case
  proof (cases "d = []")
    case True
    then have "fst ((find_wires_step cs h ^^ 0) (d, wires)) = []
      \<and> find_wires_loop cs h (d, wires) = snd ((find_wires_step cs h ^^ 0) (d, wires))"
      by simp
    then show ?thesis by blast
  next
    case False
    from "1.IH" [OF False] obtain n where
      n: "fst ((find_wires_step cs h ^^ n) (find_wires_step cs h (d, wires))) = []"
         "find_wires_loop cs h (find_wires_step cs h (d, wires))
            = snd ((find_wires_step cs h ^^ n) (find_wires_step cs h (d, wires)))"
      by blast
    have "fst ((find_wires_step cs h ^^ Suc n) (d, wires)) = []
      \<and> find_wires_loop cs h (d, wires) = snd ((find_wires_step cs h ^^ Suc n) (d, wires))"
      using n False by (simp add: funpow_swap1)
    then show ?thesis by blast
  qed
qed

lemma count_list_replicate_same: "count_list (replicate n x) x = n"
  by (induction n) simp_all

text \<open>
  C10, as the claim states it: a wire would be put on the deque at most once for each
  adjacent edge. In the square of four wires, searched from the wire at the origin, the
  wire on the opposite corner has two adjacent wires, scanned in two directions each; after
  five iterations it sits on the deque eight times at once.
\<close>

theorem find_wires_enqueue_counterexample:
  "fst ((find_wires_step (circuits square_asic) (heap square_asic) ^^ 5) ([0], {0}))
     = replicate 8 3
   \<and> count_list (fst ((find_wires_step (circuits square_asic) (heap square_asic) ^^ 5)
        ([0], {0}))) 3 = 8
   \<and> wire_neighbors (circuits square_asic) (heap square_asic) 3 = [2, 1, 2, 1]
   \<and> set (wire_neighbors (circuits square_asic) (heap square_asic) 3) = {1, 2}"
proof -
  have "wire_neighbors (circuits square_asic) (heap square_asic) 3 = [2, 1, 2, 1]"
    unfolding square_circuits square_heap
    by (simp add: wire_neighbors_def search_defs)
  moreover have "count_list (replicate 8 (3::nat)) 3 = 8"
    by (rule count_list_replicate_same)
  ultimately show ?thesis
    by (auto simp: square_deque)
qed

text \<open>
  C10, amended. The search terminates on every Asic (its dictionary is finite): from any
  deque and visited set, hence from the start \<open>([root], {root})\<close>, some number of
  iterations empties the deque, and the loop returns the visited set reached then; so
  \<open>find_wires\<close> returns \<open>None\<close> or the visited set after finitely many iterations. A wire
  is added to the visited set when it is popped; until then each pop of an adjacent wire
  puts it on the deque again, so it can be on the deque more often than it has adjacent
  edges.
\<close>

theorem find_wires_terminates:
  "(\<exists>n. fst ((find_wires_step cs h ^^ n) (d, wires)) = []
       \<and> find_wires_loop cs h (d, wires) = snd ((find_wires_step cs h ^^ n) (d, wires)))
   \<and> (find_wires s xyz = None
       \<or> (\<exists>root n. fmlookup (circuits s) xyz = Some root
             \<and> fst ((find_wires_step (circuits s) (heap s) ^^ n) ([root], {root})) = []
             \<and> find_wires s xyz
                 = Some (snd ((find_wires_step (circuits s) (heap s) ^^ n) ([root], {root})))))"
proof
  show "\<exists>n. fst ((find_wires_step cs h ^^ n) (d, wires)) = []
       \<and> find_wires_loop cs h (d, wires) = snd ((find_wires_step cs h ^^ n) (d, wires))"
    by (rule find_wires_loop_iterations)
next
  show "find_wires s xyz = None
       \<or> (\<exists>root n. fmlookup (circuits s) xyz = Some root
             \<and> fst ((find_wires_step (circuits s) (heap s) ^^ n) ([root], {root})) = []
             \<and> find_wires s xyz
                 = Some (snd ((find_wires_step (circuits s) (heap s) ^^ n) ([root], {root}))))"
  proof (cases "find_wires s xyz")
    case None
    then show ?thesis by simp
  next
    case (Some S)
    then obtain root where root: "fmlookup (circuits s) xyz = Some root"
      and S: "S = find_wires_loop (circuits s) (heap s) ([root], {root})"
      by (auto simp: find_wires_def split: option.splits if_splits)
    from find_wires_loop_iterations [of "circuits s" "heap s" "([root], {root})"]
    obtain n where "fst ((find_wires_step (circuits s) (heap s) ^^ n) ([root], {root})) = []"
      "find_wires_loop (circuits s) (heap s) ([root], {root})
         = snd ((find_wires_step (circuits s) (heap s) ^^ n) ([root], {root}))"
      by blast
    with root S Some show ?thesis by auto
  qed
qed

theorem find_wires_terminates_witness:
  "find_wires square_asic (0, 0, 0) = Some {0, 1, 2, 3}
   \<and> (\<exists>n. fst ((find_wires_step (circuits square_asic) (heap square_asic) ^^ n) ([0], {0})) = []
          \<and> snd ((find_wires_step (circuits square_asic) (heap square_asic) ^^ n) ([0], {0}))
              = {0, 1, 2, 3})"
proof -
  have "fmlookup (circuits square_asic) (0, 0, 0) = Some 0"
    unfolding square_circuits by simp
  with find_wires_terminates
         [of "circuits square_asic" "heap square_asic" "[]" "{}" square_asic "(0, 0, 0)"]
       square_find
  obtain n where
    "fst ((find_wires_step (circuits square_asic) (heap square_asic) ^^ n) ([0], {0})) = []"
    "snd ((find_wires_step (circuits square_asic) (heap square_asic) ^^ n) ([0], {0}))
       = {0, 1, 2, 3}"
    by auto
  with square_find show ?thesis by blast
qed

end
